theory Spec2Isabelle
  imports Main
begin

section \<open>Python values, exceptions and the json module\<close>

text \<open>
  The client in \<^verbatim>\<open>src/client/database/milvus/milvus_client.py\<close> is dynamically typed:
  the metadata of a document is a dict of arbitrary values, the emptiness test of
  \<^verbatim>\<open>store_doc\<close> is Python truthiness, and the headers travel through \<^verbatim>\<open>json.dumps\<close> and
  \<^verbatim>\<open>json.loads\<close>. The values are therefore a datatype of Python values. Strings are
  8-bit character lists, integers are unbounded, and the float type is a parameter
  \<open>'f\<close>: the client never computes with a float, and what Python does with one
  (truthiness, the text json writes for it, \<^verbatim>\<open>float(s)\<close>) is supplied by a runtime record.
\<close>

datatype 'f pyval =
    PNone
  | PBool bool
  | PInt int
  | PFloat 'f
  | PStr string
  | PTuple "'f pyval list"
  | PList "'f pyval list"
  | PDict "('f pyval \<times> 'f pyval) list"

record 'f pyrt =
  float_bool :: "'f \<Rightarrow> bool"
  float_json :: "'f \<Rightarrow> string"
  float_parse :: "string \<Rightarrow> 'f"

datatype exc =
    MilvusFailed string
  | TypeError string
  | JSONDecodeError string
  | MilvusException string

text \<open>Python truthiness, as \<^verbatim>\<open>all([...])\<close> and \<^verbatim>\<open>if not x\<close> read a value.\<close>

fun truthy :: "'f pyrt \<Rightarrow> 'f pyval \<Rightarrow> bool" where
  "truthy rt PNone = False"
| "truthy rt (PBool b) = b"
| "truthy rt (PInt i) = (i \<noteq> 0)"
| "truthy rt (PFloat x) = float_bool rt x"
| "truthy rt (PStr s) = (s \<noteq> [])"
| "truthy rt (PTuple vs) = (vs \<noteq> [])"
| "truthy rt (PList vs) = (vs \<noteq> [])"
| "truthy rt (PDict kvs) = (kvs \<noteq> [])"

text \<open>\<^verbatim>\<open>str(e)\<close> of an exception is its message.\<close>

fun str_exc :: "exc \<Rightarrow> string" where
  "str_exc (MilvusFailed m) = m"
| "str_exc (TypeError m) = m"
| "str_exc (JSONDecodeError m) = m"
| "str_exc (MilvusException m) = m"

subsection \<open>json.dumps\<close>

text \<open>
  \<^verbatim>\<open>json.dumps\<close> with its default arguments: separators \<^verbatim>\<open>", "\<close> and \<^verbatim>\<open>": "\<close>,
  \<^verbatim>\<open>ensure_ascii=True\<close> (every character outside \<^verbatim>\<open>' '..'~'\<close> is escaped), tuples
  written as arrays, and dict keys coerced to strings: a \<^verbatim>\<open>str\<close> key is kept, an
  \<^verbatim>\<open>int\<close>, \<^verbatim>\<open>float\<close>, \<^verbatim>\<open>bool\<close> or \<^verbatim>\<open>None\<close> key is written as the string of its JSON
  text, any other key raises \<^verbatim>\<open>TypeError\<close>. The message texts of library exceptions
  are abbreviated.
\<close>

fun seqE :: "('e + 'a) list \<Rightarrow> 'e + 'a list" where
  "seqE [] = Inr []"
| "seqE (Inl e # rs) = Inl e"
| "seqE (Inr x # rs) = (case seqE rs of Inl e \<Rightarrow> Inl e | Inr xs \<Rightarrow> Inr (x # xs))"

fun join :: "string \<Rightarrow> string list \<Rightarrow> string" where
  "join sep [] = []"
| "join sep [x] = x"
| "join sep (x # y # ys) = x @ sep @ join sep (y # ys)"

definition hexdigit :: "nat \<Rightarrow> char" where
  "hexdigit n = ''0123456789abcdef'' ! n"

fun digits :: "nat \<Rightarrow> string" where
  "digits n = (if n < 10 then [hexdigit n] else digits (n div 10) @ [hexdigit (n mod 10)])"

declare digits.simps [simp del]

definition str_int :: "int \<Rightarrow> string" where
  "str_int i = (if i < 0 then CHR ''-'' # digits (nat (- i)) else digits (nat i))"

definition esc_char :: "char \<Rightarrow> string" where
  "esc_char c =
     (if c = CHR 0x22 then [CHR 0x5C, CHR 0x22]
      else if c = CHR 0x5C then [CHR 0x5C, CHR 0x5C]
      else if c = CHR 0x0A then [CHR 0x5C, CHR ''n'']
      else if c = CHR 0x0D then [CHR 0x5C, CHR ''r'']
      else if c = CHR 0x09 then [CHR 0x5C, CHR ''t'']
      else if c = CHR 0x08 then [CHR 0x5C, CHR ''b'']
      else if c = CHR 0x0C then [CHR 0x5C, CHR ''f'']
      else if (32::nat) \<le> of_char c \<and> of_char c \<le> (126::nat) then [c]
      else [CHR 0x5C, CHR ''u'', CHR ''0'', CHR ''0'',
            hexdigit (of_char c div 16), hexdigit (of_char c mod 16)])"

definition json_str :: "string \<Rightarrow> string" where
  "json_str s = CHR 0x22 # concat (map esc_char s) @ [CHR 0x22]"

fun json_key :: "'f pyrt \<Rightarrow> 'f pyval \<Rightarrow> exc + string" where
  "json_key rt (PStr s) = Inr s"
| "json_key rt (PFloat x) = Inr (float_json rt x)"
| "json_key rt (PBool b) = Inr (if b then ''true'' else ''false'')"
| "json_key rt PNone = Inr ''null''"
| "json_key rt (PInt i) = Inr (str_int i)"
| "json_key rt _ = Inl (TypeError ''keys must be str, int, float, bool or None'')"

fun json_enc :: "'f pyrt \<Rightarrow> 'f pyval \<Rightarrow> exc + string" where
  "json_enc rt PNone = Inr ''null''"
| "json_enc rt (PBool b) = Inr (if b then ''true'' else ''false'')"
| "json_enc rt (PInt i) = Inr (str_int i)"
| "json_enc rt (PFloat x) = Inr (float_json rt x)"
| "json_enc rt (PStr s) = Inr (json_str s)"
| "json_enc rt (PTuple vs) =
     (case seqE (map (json_enc rt) vs) of
        Inl e \<Rightarrow> Inl e
      | Inr xs \<Rightarrow> Inr (''['' @ join '', '' xs @ '']''))"
| "json_enc rt (PList vs) =
     (case seqE (map (json_enc rt) vs) of
        Inl e \<Rightarrow> Inl e
      | Inr xs \<Rightarrow> Inr (''['' @ join '', '' xs @ '']''))"
| "json_enc rt (PDict kvs) =
     (case seqE (map (\<lambda>(k, v).
              case json_key rt k of
                Inl e \<Rightarrow> Inl e
              | Inr ks \<Rightarrow>
                 (case json_enc rt v of
                    Inl e \<Rightarrow> Inl e
                  | Inr vs \<Rightarrow> Inr (json_str ks @ '': '' @ vs))) kvs) of
        Inl e \<Rightarrow> Inl e
      | Inr xs \<Rightarrow> Inr (''{'' @ join '', '' xs @ ''}''))"


subsection \<open>json.loads\<close>

text \<open>
  \<^verbatim>\<open>json.loads\<close> with its default arguments, after \<^verbatim>\<open>json/decoder.py\<close> and
  \<^verbatim>\<open>json/scanner.py\<close>: whitespace is space, tab, newline and carriage return; a string
  ends at the first unescaped quote and may not hold a control character; a number is the
  longest match of an optional minus sign, an integer part without leading zero, an
  optional fraction and an optional exponent, an \<^verbatim>\<open>int\<close>
  without fraction and exponent and a \<^verbatim>\<open>float\<close> otherwise; \<^verbatim>\<open>NaN\<close>, \<^verbatim>\<open>Infinity\<close> and
  \<^verbatim>\<open>-Infinity\<close> are floats; an object becomes a dict in which a repeated key keeps its
  first position and its last value; text after the value is an error.
  A four-digit unicode escape above \<^verbatim>\<open>00ff\<close> denotes a character that an 8-bit string
  cannot hold; such text is outside this model and is reported as undecodable.
  The recursion of the scanner runs on fuel; \<open>json_loads\<close> supplies twice the length of
  the text and two, which is always enough (\<open>json_loads_fuel\<close> below).
\<close>

definition is_ws :: "char \<Rightarrow> bool" where
  "is_ws c \<longleftrightarrow> c = CHR 0x20 \<or> c = CHR 0x09 \<or> c = CHR 0x0A \<or> c = CHR 0x0D"

definition skip_ws :: "string \<Rightarrow> string" where
  "skip_ws s = dropWhile is_ws s"

definition is_digit :: "char \<Rightarrow> bool" where
  "is_digit c \<longleftrightarrow> (48::nat) \<le> of_char c \<and> of_char c \<le> (57::nat)"

definition digit_val :: "char \<Rightarrow> nat" where
  "digit_val c = of_char c - 48"

definition nat_of_digits :: "string \<Rightarrow> nat" where
  "nat_of_digits ds = foldl (\<lambda>a d. 10 * a + digit_val d) 0 ds"

definition hex_val :: "char \<Rightarrow> nat option" where
  "hex_val c =
     (let n = (of_char c :: nat) in
      if 48 \<le> n \<and> n \<le> 57 then Some (n - 48)
      else if 97 \<le> n \<and> n \<le> 102 then Some (n - 87)
      else if 65 \<le> n \<and> n \<le> 70 then Some (n - 55)
      else None)"

definition unescape :: "char \<Rightarrow> char option" where
  "unescape e =
     (if e = CHR 0x22 then Some (CHR 0x22)
      else if e = CHR 0x5C then Some (CHR 0x5C)
      else if e = CHR ''/'' then Some (CHR ''/'')
      else if e = CHR ''b'' then Some (CHR 0x08)
      else if e = CHR ''f'' then Some (CHR 0x0C)
      else if e = CHR ''n'' then Some (CHR 0x0A)
      else if e = CHR ''r'' then Some (CHR 0x0D)
      else if e = CHR ''t'' then Some (CHR 0x09)
      else None)"

definition decode_uXXXX :: "string \<Rightarrow> (nat \<times> string) option" where
  "decode_uXXXX s =
     (case s of
        h1 # h2 # h3 # h4 # r \<Rightarrow>
          (case (hex_val h1, hex_val h2, hex_val h3, hex_val h4) of
             (Some a, Some b, Some c, Some d) \<Rightarrow> Some (((a * 16 + b) * 16 + c) * 16 + d, r)
           | _ \<Rightarrow> None)
      | _ \<Rightarrow> None)"

fun scanstring :: "string \<Rightarrow> (string \<times> string) option" where
  "scanstring [] = None"
| "scanstring (c # cs) =
     (if c = CHR 0x22 then Some ([], cs)
      else if c = CHR 0x5C then
        (case cs of
           [] \<Rightarrow> None
         | e # r \<Rightarrow>
            if e = CHR ''u'' then
              (case r of
                 h1 # h2 # h3 # h4 # r' \<Rightarrow>
                   (case decode_uXXXX [h1, h2, h3, h4] of
                      None \<Rightarrow> None
                    | Some (n, _) \<Rightarrow>
                       if n < 256 then
                         (case scanstring r' of
                            None \<Rightarrow> None
                          | Some (s, t) \<Rightarrow> Some (char_of n # s, t))
                       else None)
               | _ \<Rightarrow> None)
            else
              (case unescape e of
                 None \<Rightarrow> None
               | Some ch \<Rightarrow>
                  (case scanstring r of
                     None \<Rightarrow> None
                   | Some (s, t) \<Rightarrow> Some (ch # s, t))))
      else if (of_char c :: nat) < 32 then None
      else
        (case scanstring cs of
           None \<Rightarrow> None
         | Some (s, t) \<Rightarrow> Some (c # s, t)))"

definition match_number :: "string \<Rightarrow> (string \<times> string \<times> string \<times> string) option" where
  "match_number s =
     (let (sign, s1) = (case s of c # r \<Rightarrow> if c = CHR ''-'' then ([c], r) else ([], s) | [] \<Rightarrow> ([], s)) in
      case s1 of
        [] \<Rightarrow> None
      | d # r \<Rightarrow>
         if \<not> is_digit d then None
         else
           let (ip, s2) = (if d = CHR ''0'' then ([d], r) else (takeWhile is_digit s1, dropWhile is_digit s1));
               (frac, s3) = (case s2 of
                               p # r2 \<Rightarrow>
                                 if p = CHR ''.'' \<and> takeWhile is_digit r2 \<noteq> []
                                 then (p # takeWhile is_digit r2, dropWhile is_digit r2)
                                 else ([], s2)
                             | [] \<Rightarrow> ([], s2));
               (ex, s4) = (case s3 of
                             e # r3 \<Rightarrow>
                               if e = CHR ''e'' \<or> e = CHR ''E'' then
                                 (let (sg, r4) = (case r3 of
                                                    g # r5 \<Rightarrow> if g = CHR ''+'' \<or> g = CHR ''-'' then ([g], r5) else ([], r3)
                                                  | [] \<Rightarrow> ([], r3))
                                  in if takeWhile is_digit r4 \<noteq> []
                                     then (e # sg @ takeWhile is_digit r4, dropWhile is_digit r4)
                                     else ([], s3))
                               else ([], s3)
                           | [] \<Rightarrow> ([], s3))
           in Some (sign @ ip, frac, ex, s4))"

definition starts_with :: "string \<Rightarrow> string \<Rightarrow> bool" where
  "starts_with p s \<longleftrightarrow> take (length p) s = p"

definition scan_atom :: "'f pyrt \<Rightarrow> string \<Rightarrow> ('f pyval \<times> string) option" where
  "scan_atom rt s =
     (if starts_with ''null'' s then Some (PNone, drop 4 s)
      else if starts_with ''true'' s then Some (PBool True, drop 4 s)
      else if starts_with ''false'' s then Some (PBool False, drop 5 s)
      else
        (case match_number s of
           Some (integer, frac, ex, r) \<Rightarrow>
             if frac \<noteq> [] \<or> ex \<noteq> [] then Some (PFloat (float_parse rt (integer @ frac @ ex)), r)
             else Some (PInt (case integer of
                                c # ds \<Rightarrow> if c = CHR ''-'' then - int (nat_of_digits ds) else int (nat_of_digits integer)
                              | [] \<Rightarrow> 0), r)
         | None \<Rightarrow>
             if starts_with ''NaN'' s then Some (PFloat (float_parse rt ''NaN''), drop 3 s)
             else if starts_with ''Infinity'' s then Some (PFloat (float_parse rt ''Infinity''), drop 8 s)
             else if starts_with ''-Infinity'' s then Some (PFloat (float_parse rt ''-Infinity''), drop 9 s)
             else None))"

fun dict_set :: "'k \<Rightarrow> 'v \<Rightarrow> ('k \<times> 'v) list \<Rightarrow> ('k \<times> 'v) list" where
  "dict_set k v [] = [(k, v)]"
| "dict_set k v ((k', v') # d) = (if k' = k then (k', v) # d else (k', v') # dict_set k v d)"

definition dict_of_pairs :: "('k \<times> 'v) list \<Rightarrow> ('k \<times> 'v) list" where
  "dict_of_pairs ps = foldl (\<lambda>d (k, v). dict_set k v d) [] ps"

fun scan_once :: "'f pyrt \<Rightarrow> nat \<Rightarrow> string \<Rightarrow> ('f pyval \<times> string) option"
  and scan_elems :: "'f pyrt \<Rightarrow> nat \<Rightarrow> string \<Rightarrow> ('f pyval list \<times> string) option"
  and scan_members :: "'f pyrt \<Rightarrow> nat \<Rightarrow> string \<Rightarrow> ((string \<times> 'f pyval) list \<times> string) option"
where
  "scan_once rt 0 s = None"
| "scan_once rt (Suc n) s =
     (case s of
        [] \<Rightarrow> None
      | c # cs \<Rightarrow>
         if c = CHR 0x22 then
           (case scanstring cs of None \<Rightarrow> None | Some (x, r) \<Rightarrow> Some (PStr x, r))
         else if c = CHR ''{'' then
           (case skip_ws cs of
              [] \<Rightarrow> None
            | d # r \<Rightarrow>
               if d = CHR ''}'' then Some (PDict [], r)
               else
                 (case scan_members rt n (d # r) of
                    None \<Rightarrow> None
                  | Some (kvs, t) \<Rightarrow>
                     Some (PDict (dict_of_pairs (map (\<lambda>(k, v). (PStr k, v)) kvs)), t)))
         else if c = CHR ''['' then
           (case skip_ws cs of
              [] \<Rightarrow> None
            | d # r \<Rightarrow>
               if d = CHR '']'' then Some (PList [], r)
               else
                 (case scan_elems rt n (d # r) of
                    None \<Rightarrow> None
                  | Some (vs, t) \<Rightarrow> Some (PList vs, t)))
         else scan_atom rt s)"
| "scan_elems rt 0 s = None"
| "scan_elems rt (Suc n) s =
     (case scan_once rt n s of
        None \<Rightarrow> None
      | Some (v, r) \<Rightarrow>
         (case skip_ws r of
            [] \<Rightarrow> None
          | d # r' \<Rightarrow>
             if d = CHR '']'' then Some ([v], r')
             else if d = CHR '','' then
               (case scan_elems rt n (skip_ws r') of
                  None \<Rightarrow> None
                | Some (vs, t) \<Rightarrow> Some (v # vs, t))
             else None))"
| "scan_members rt 0 s = None"
| "scan_members rt (Suc n) s =
     (case s of
        [] \<Rightarrow> None
      | q # s1 \<Rightarrow>
         if q \<noteq> CHR 0x22 then None
         else
           (case scanstring s1 of
              None \<Rightarrow> None
            | Some (k, r) \<Rightarrow>
               (case skip_ws r of
                  [] \<Rightarrow> None
                | c # r1 \<Rightarrow>
                   if c \<noteq> CHR '':'' then None
                   else
                     (case scan_once rt n (skip_ws r1) of
                        None \<Rightarrow> None
                      | Some (v, r2) \<Rightarrow>
                         (case skip_ws r2 of
                            [] \<Rightarrow> None
                          | d # r3 \<Rightarrow>
                             if d = CHR ''}'' then Some ([(k, v)], r3)
                             else if d = CHR '','' then
                               (case scan_members rt n (skip_ws r3) of
                                  None \<Rightarrow> None
                                | Some (kvs, t) \<Rightarrow> Some ((k, v) # kvs, t))
                             else None)))))"

text \<open>The two entry points the client calls.\<close>

definition json_dumps :: "'f pyrt \<Rightarrow> 'f pyval \<Rightarrow> exc + string" where
  "json_dumps rt v = json_enc rt v"

definition json_loads :: "'f pyrt \<Rightarrow> 'f pyval \<Rightarrow> exc + 'f pyval" where
  "json_loads rt x =
     (case x of
        PStr s \<Rightarrow>
          (case scan_once rt (2 * length s + 2) (skip_ws s) of
             None \<Rightarrow> Inl (JSONDecodeError ''Expecting value'')
           | Some (v, r) \<Rightarrow>
              if skip_ws r = [] then Inr v else Inl (JSONDecodeError ''Extra data''))
      | _ \<Rightarrow> Inl (TypeError ''the JSON object must be str, bytes or bytearray''))"


subsection \<open>Values that json writes and reads back\<close>



section \<open>The vector store as the client sees it\<close>

text \<open>
  pymilvus is an external library: the store is a parameter of the model. A record of
  functions over an abstract server state \<open>'s\<close> answers the calls the client makes; each
  may fail with an exception. A collection handle is the collection's name. The world
  keeps the server state and the list of calls issued so far, so that a theorem can say
  which calls an operation made and with which arguments.
\<close>

datatype data_type = INT64 | VARCHAR | FLOAT_VECTOR

record field_schema =
  fs_name :: string
  fs_dtype :: data_type
  fs_is_primary :: bool
  fs_auto_id :: bool
  fs_max_length :: "nat option"
  fs_dim :: "nat option"

record index_params =
  ip_metric_type :: string
  ip_index_type :: string
  ip_params :: "(string \<times> int) list"

record search_param =
  sp_metric_type :: string
  sp_params :: "(string \<times> int) list"

text \<open>The keyword arguments of \<^verbatim>\<open>Collection.search\<close>, as \<^verbatim>\<open>search_docs\<close> assembles them.\<close>

record 'f search_request =
  rq_metric_type :: string
  rq_params :: "(string \<times> int) list"
  rq_data :: "'f list list option"
  rq_anns_field :: string
  rq_param :: search_param
  rq_limit :: int
  rq_expr :: string
  rq_output_fields :: "string list"

record 'f hit =
  hit_id :: int
  distance :: 'f
  entity :: "string \<rightharpoonup> 'f pyval"

datatype 'f api_call =
    Connect string int
  | HasCollection string
  | NewCollection string "field_schema list"
  | GetCollection string
  | CreateIndex string string index_params
  | Load string
  | Insert string "'f pyval list list"
  | Search string "'f search_request"

record ('f, 's) milvus =
  srv_connect :: "string \<Rightarrow> int \<Rightarrow> 's \<Rightarrow> (exc + unit) \<times> 's"
  srv_has_collection :: "string \<Rightarrow> 's \<Rightarrow> (exc + bool) \<times> 's"
  srv_new_collection :: "string \<Rightarrow> field_schema list \<Rightarrow> 's \<Rightarrow> (exc + unit) \<times> 's"
  srv_get_collection :: "string \<Rightarrow> 's \<Rightarrow> (exc + unit) \<times> 's"
  srv_create_index :: "string \<Rightarrow> string \<Rightarrow> index_params \<Rightarrow> 's \<Rightarrow> (exc + unit) \<times> 's"
  srv_load :: "string \<Rightarrow> 's \<Rightarrow> (exc + unit) \<times> 's"
  srv_insert :: "string \<Rightarrow> 'f pyval list list \<Rightarrow> 's \<Rightarrow> (exc + unit) \<times> 's"
  srv_search :: "string \<Rightarrow> 'f search_request \<Rightarrow> 's \<Rightarrow> (exc + 'f hit list list) \<times> 's"

record ('f, 's) world =
  server :: 's
  issued :: "'f api_call list"

definition issue :: "'f api_call \<Rightarrow> ('s \<Rightarrow> 'r \<times> 's) \<Rightarrow> ('f, 's) world \<Rightarrow> 'r \<times> ('f, 's) world" where
  "issue c f w = (case f (server w) of (r, s') \<Rightarrow> (r, \<lparr>server = s', issued = issued w @ [c]\<rparr>))"

section \<open>MilvusClient\<close>

text \<open>
  A langchain \<^verbatim>\<open>Document\<close>: \<^verbatim>\<open>page_content\<close> is a string, \<^verbatim>\<open>metadata\<close> a dict.
  \<^verbatim>\<open>metadata.get(k)\<close> is \<^verbatim>\<open>None\<close> for a missing key; the embedding is a list of floats
  or \<^verbatim>\<open>None\<close>.
\<close>

record 'f document =
  page_content :: string
  metadata :: "string \<rightharpoonup> 'f pyval"

text \<open>
  The attributes of the client that its methods read. \<^verbatim>\<open>partitions\<close> and \<^verbatim>\<open>executor\<close> are
  set by the constructor and never used. The host, the port and \<^verbatim>\<open>VECTOR_SEARCH_TOP_K\<close>
  come from \<^verbatim>\<open>src/configs/configs.py\<close>, which is not part of the source: they are
  parameters of the constructor.
\<close>

record client =
  host :: string
  port :: int
  sess :: "string option"
  top_k :: int
  search_params :: search_param
  create_params :: index_params

text \<open>
  \<^verbatim>\<open>__init__\<close>: a failure to connect is logged and swallowed; the client is constructed
  either way, with no collection loaded.
\<close>

definition MilvusClient_init ::
  "('f, 's) milvus \<Rightarrow> string \<Rightarrow> int \<Rightarrow> int \<Rightarrow> ('f, 's) world \<Rightarrow> client \<times> ('f, 's) world" where
  "MilvusClient_init m MILVUS_HOST_LOCAL MILVUS_PORT VECTOR_SEARCH_TOP_K w =
     (let c = \<lparr>host = MILVUS_HOST_LOCAL, port = MILVUS_PORT, sess = None,
                top_k = VECTOR_SEARCH_TOP_K,
                search_params = \<lparr>sp_metric_type = ''L2'', sp_params = [(''nprobe'', 128)]\<rparr>,
                create_params = \<lparr>ip_metric_type = ''L2'', ip_index_type = ''IVF_FLAT'',
                                 ip_params = [(''nlist'', 1024)]\<rparr>\<rparr>
      in case issue (Connect (host c) (port c)) (srv_connect m (host c) (port c)) w of
           (_, w') \<Rightarrow> (c, w'))"

text \<open>The \<^verbatim>\<open>fields\<close> and \<^verbatim>\<open>output_fields\<close> properties.\<close>

definition FieldSchema :: "string \<Rightarrow> data_type \<Rightarrow> field_schema" where
  "FieldSchema n t = \<lparr>fs_name = n, fs_dtype = t, fs_is_primary = False, fs_auto_id = False,
                       fs_max_length = None, fs_dim = None\<rparr>"

definition fields :: "field_schema list" where
  "fields =
     [(FieldSchema ''id'' INT64)\<lparr>fs_is_primary := True, fs_auto_id := True\<rparr>,
      (FieldSchema ''user_id'' VARCHAR)\<lparr>fs_max_length := Some 64\<rparr>,
      (FieldSchema ''kb_id'' VARCHAR)\<lparr>fs_max_length := Some 64\<rparr>,
      (FieldSchema ''file_id'' VARCHAR)\<lparr>fs_max_length := Some 64\<rparr>,
      (FieldSchema ''headers'' VARCHAR)\<lparr>fs_max_length := Some 256\<rparr>,
      (FieldSchema ''doc_id'' VARCHAR)\<lparr>fs_max_length := Some 64\<rparr>,
      (FieldSchema ''content'' VARCHAR)\<lparr>fs_max_length := Some 4000\<rparr>,
      (FieldSchema ''embedding'' FLOAT_VECTOR)\<lparr>fs_dim := Some 768\<rparr>]"

definition output_fields :: "string list" where
  "output_fields =
     [''id'', ''user_id'', ''kb_id'', ''file_id'', ''headers'', ''doc_id'', ''content'', ''embedding'']"

text \<open>
  Modelled from the spec: the decorator \<^verbatim>\<open>get_time\<close> of \<^verbatim>\<open>src/utils/general_utils.py\<close>
  is not part of the source. The spec gives \<^verbatim>\<open>search\<close> and \<^verbatim>\<open>ensure_loaded\<close> the results
  of the decorated functions, so the decorator hands the call through.
\<close>

definition get_time :: "'a \<Rightarrow> 'a" where
  "get_time f = f"

subsection \<open>load_collection_\<close>

text \<open>
  The method \<^verbatim>\<open>load_collection_\<close>; a constant's name cannot end in an underscore.
  No \<^verbatim>\<open>try\<close> surrounds the body: an exception of the store leaves the method as it is,
  and \<^verbatim>\<open>self.sess\<close> keeps its old value.
\<close>

definition load_collection ::
  "('f, 's) milvus \<Rightarrow> client \<Rightarrow> string \<Rightarrow> ('f, 's) world \<Rightarrow> (exc + unit) \<times> client \<times> ('f, 's) world" where
  "load_collection m = get_time (\<lambda>c user_id w.
     case issue (HasCollection user_id) (srv_has_collection m user_id) w of
       (Inl e, w1) \<Rightarrow> (Inl e, c, w1)
     | (Inr exists, w1) \<Rightarrow>
        (case (if \<not> exists then
                 (case issue (NewCollection user_id fields) (srv_new_collection m user_id fields) w1 of
                    (Inl e, w2) \<Rightarrow> (Inl e, w2)
                  | (Inr _, w2) \<Rightarrow>
                      issue (CreateIndex user_id ''embedding'' (create_params c))
                            (srv_create_index m user_id ''embedding'' (create_params c)) w2)
               else issue (GetCollection user_id) (srv_get_collection m user_id) w1) of
           (Inl e, w3) \<Rightarrow> (Inl e, c, w3)
         | (Inr _, w3) \<Rightarrow>
            (case issue (Load user_id) (srv_load m user_id) w3 of
               (Inl e, w4) \<Rightarrow> (Inl e, c, w4)
             | (Inr _, w4) \<Rightarrow> (Inr (), c\<lparr>sess := Some user_id\<rparr>, w4))))"

subsection \<open>store_doc\<close>

definition dict_get :: "(string \<rightharpoonup> 'f pyval) \<Rightarrow> string \<Rightarrow> 'f pyval" where
  "dict_get d k = (case d k of None \<Rightarrow> PNone | Some v \<Rightarrow> v)"

definition dict_get_default :: "(string \<rightharpoonup> 'f pyval) \<Rightarrow> string \<Rightarrow> 'f pyval \<Rightarrow> 'f pyval" where
  "dict_get_default d k dflt = (case d k of None \<Rightarrow> dflt | Some v \<Rightarrow> v)"

definition embedding_val :: "'f list option \<Rightarrow> 'f pyval" where
  "embedding_val e = (case e of None \<Rightarrow> PNone | Some xs \<Rightarrow> PList (map PFloat xs))"

text \<open>The column data of lines 94 to 102, from the values the method has extracted.\<close>

definition insert_data ::
  "'f pyval \<Rightarrow> 'f pyval \<Rightarrow> 'f pyval \<Rightarrow> string \<Rightarrow> 'f pyval \<Rightarrow> string \<Rightarrow> 'f list option \<Rightarrow> 'f pyval list list" where
  "insert_data user_id kb_id file_id headers doc_id content embedding =
     [[user_id], [kb_id], [file_id], [PStr headers], [doc_id], [PStr content],
      [embedding_val embedding]]"

text \<open>The body of the \<^verbatim>\<open>try\<close> block, and the method with its \<^verbatim>\<open>except\<close> clause.\<close>

definition store_doc_try ::
  "('f, 's) milvus \<Rightarrow> 'f pyrt \<Rightarrow> client \<Rightarrow> 'f document \<Rightarrow> 'f list option \<Rightarrow> ('f, 's) world
     \<Rightarrow> (exc + unit) \<times> ('f, 's) world" where
  "store_doc_try m rt c doc embedding w =
     (case sess c of
        None \<Rightarrow> (Inl (MilvusFailed ''Milvus collection is not loaded. Call load_collection_() first.''), w)
      | Some h \<Rightarrow>
         (let md = metadata doc;
              user_id = dict_get md ''user_id'';
              kb_id = dict_get md ''kb_id'';
              file_id = dict_get md ''file_id''
          in case json_dumps rt (dict_get_default md ''headers'' (PDict [])) of
               Inl e \<Rightarrow> (Inl e, w)
             | Inr headers \<Rightarrow>
                (let doc_id = dict_get md ''doc_id'';
                     content = page_content doc
                 in if \<not> list_all (truthy rt)
                          [user_id, kb_id, file_id, doc_id, PStr content, embedding_val embedding]
                    then (Inl (MilvusFailed ''Missing required fields in document metadata or embedding.''), w)
                    else (let d = insert_data user_id kb_id file_id headers doc_id content embedding
                          in issue (Insert h d) (srv_insert m h d) w))))"

definition store_doc ::
  "('f, 's) milvus \<Rightarrow> 'f pyrt \<Rightarrow> client \<Rightarrow> 'f document \<Rightarrow> 'f list option \<Rightarrow> ('f, 's) world
     \<Rightarrow> (exc + unit) \<times> ('f, 's) world" where
  "store_doc m rt c doc embedding w =
     (case store_doc_try m rt c doc embedding w of
        (Inl e, w') \<Rightarrow> (Inl (MilvusFailed (''Failed to store document: '' @ str_exc e)), w')
      | (Inr u, w') \<Rightarrow> (Inr u, w'))"

subsection \<open>search_docs\<close>

definition search_kwargs ::
  "client \<Rightarrow> 'f list option \<Rightarrow> string option \<Rightarrow> int \<Rightarrow> 'f search_request" where
  "search_kwargs c query_embedding filter_expr doc_limit =
     \<lparr>rq_metric_type = sp_metric_type (search_params c),
      rq_params = sp_params (search_params c),
      rq_data = (case query_embedding of
                   None \<Rightarrow> None
                 | Some q \<Rightarrow> if q \<noteq> [] then Some [q] else None),
      rq_anns_field = ''embedding'',
      rq_param = \<lparr>sp_metric_type = ''L2'', sp_params = [(''nprobe'', 128)]\<rparr>,
      rq_limit = doc_limit,
      rq_expr = (case filter_expr of
                   None \<Rightarrow> []
                 | Some e \<Rightarrow> if e \<noteq> [] then e else []),
      rq_output_fields = output_fields\<rparr>"

text \<open>The dict built for one hit (lines 157 to 167); \<^verbatim>\<open>json.loads\<close> may raise.\<close>

definition hit_doc :: "'f pyrt \<Rightarrow> 'f hit \<Rightarrow> exc + (string \<times> 'f pyval) list" where
  "hit_doc rt h =
     (case json_loads rt (dict_get (entity h) ''headers'') of
        Inl e \<Rightarrow> Inl e
      | Inr headers \<Rightarrow>
         Inr [(''user_id'', dict_get (entity h) ''user_id''),
              (''kb_id'', dict_get (entity h) ''kb_id''),
              (''file_id'', dict_get (entity h) ''file_id''),
              (''headers'', headers),
              (''doc_id'', dict_get (entity h) ''doc_id''),
              (''content'', dict_get (entity h) ''content''),
              (''embedding'', dict_get (entity h) ''embedding'')])"

text \<open>The two nested loops: every hit of every hit list, in order, up to the first exception.\<close>

fun retrieve_docs :: "'f pyrt \<Rightarrow> 'f hit list \<Rightarrow> exc + (string \<times> 'f pyval) list list" where
  "retrieve_docs rt [] = Inr []"
| "retrieve_docs rt (h # hs) =
     (case hit_doc rt h of
        Inl e \<Rightarrow> Inl e
      | Inr d \<Rightarrow>
         (case retrieve_docs rt hs of
            Inl e \<Rightarrow> Inl e
          | Inr ds \<Rightarrow> Inr (d # ds)))"

definition search_docs_try ::
  "('f, 's) milvus \<Rightarrow> 'f pyrt \<Rightarrow> client \<Rightarrow> 'f list option \<Rightarrow> string option \<Rightarrow> int \<Rightarrow> ('f, 's) world
     \<Rightarrow> (exc + (string \<times> 'f pyval) list list) \<times> ('f, 's) world" where
  "search_docs_try m rt c query_embedding filter_expr doc_limit w =
     (case sess c of
        None \<Rightarrow> (Inl (MilvusFailed ''Milvus collection is not loaded. Call load_collection_() first.''), w)
      | Some h \<Rightarrow>
         (let kw = search_kwargs c query_embedding filter_expr doc_limit
          in case issue (Search h kw) (srv_search m h kw) w of
               (Inl e, w') \<Rightarrow> (Inl e, w')
             | (Inr results, w') \<Rightarrow> (retrieve_docs rt (concat results), w')))"

text \<open>
  The method: \<^verbatim>\<open>doc_limit\<close> defaults to 10 when the caller leaves it out (\<open>None\<close> here);
  any exception of the body is replaced by \<^verbatim>\<open>MilvusFailed\<close>.
\<close>

definition search_docs ::
  "('f, 's) milvus \<Rightarrow> 'f pyrt \<Rightarrow> client \<Rightarrow> 'f list option \<Rightarrow> string option \<Rightarrow> int option \<Rightarrow> ('f, 's) world
     \<Rightarrow> (exc + (string \<times> 'f pyval) list list) \<times> ('f, 's) world" where
  "search_docs m rt = get_time (\<lambda>c query_embedding filter_expr doc_limit w.
     case search_docs_try m rt c query_embedding filter_expr
            (case doc_limit of None \<Rightarrow> 10 | Some l \<Rightarrow> l) w of
       (Inl e, w') \<Rightarrow> (Inl (MilvusFailed (''Failed to search documents: '' @ str_exc e)), w')
     | (Inr docs, w') \<Rightarrow> (Inr docs, w'))"

section \<open>An in-memory store and a runtime for the examples\<close>

text \<open>
  The concrete examples below need a store and a float runtime that compute. The store
  keeps one row per insert under the names of the schema's fields that are not
  auto-generated, in their order, numbers the rows, answers a search with the first
  \<^verbatim>\<open>limit\<close> rows that satisfy the filter, one hit list per query vector, and reads a
  filter with the function it is given. It ranks nothing and stands for no property of
  Milvus: the theorems are about every store. The runtime has the integers as its floats.
\<close>

datatype 'f mem_collection =
  MemCollection (mc_schema: "field_schema list") (mc_indexes: "(string \<times> index_params) list")
    (mc_loaded: bool) (mc_rows: "(string \<times> 'f pyval) list list")

type_synonym 'f mem_server = "(string \<times> 'f mem_collection) list"

definition mem_upd ::
  "string \<Rightarrow> ('f mem_collection \<Rightarrow> 'f mem_collection) \<Rightarrow> 'f mem_server \<Rightarrow> (exc + unit) \<times> 'f mem_server" where
  "mem_upd name f s =
     (case map_of s name of
        None \<Rightarrow> (Inl (MilvusException ''collection not found''), s)
      | Some _ \<Rightarrow> (Inr (), map (\<lambda>(n, c). if n = name then (n, f c) else (n, c)) s))"

definition mem_hit :: "('f list \<Rightarrow> (string \<rightharpoonup> 'f pyval) \<Rightarrow> 'f) \<Rightarrow> string list \<Rightarrow> 'f list \<Rightarrow> (string \<times> 'f pyval) list \<Rightarrow> 'f hit" where
  "mem_hit dist outs q row =
     \<lparr>hit_id = (case map_of row ''id'' of Some (PInt i) \<Rightarrow> i | _ \<Rightarrow> 0),
      distance = dist q (map_of row),
      entity = map_of (filter (\<lambda>(k, v). k \<in> set outs) row)\<rparr>"

definition mem_milvus ::
  "(string \<Rightarrow> (string \<rightharpoonup> 'f pyval) \<Rightarrow> bool) \<Rightarrow> ('f list \<Rightarrow> (string \<rightharpoonup> 'f pyval) \<Rightarrow> 'f)
     \<Rightarrow> ('f, 'f mem_server) milvus" where
  "mem_milvus sat dist =
     \<lparr>srv_connect = (\<lambda>h p s. (Inr (), s)),
      srv_has_collection = (\<lambda>name s. (Inr (map_of s name \<noteq> None), s)),
      srv_new_collection = (\<lambda>name sch s.
         case map_of s name of
           None \<Rightarrow> (Inr (), s @ [(name, MemCollection sch [] False [])])
         | Some _ \<Rightarrow> (Inr (), s)),
      srv_get_collection = (\<lambda>name s. mem_upd name (\<lambda>c. c) s),
      srv_create_index = (\<lambda>name f ip s. mem_upd name (\<lambda>c. MemCollection (mc_schema c) (mc_indexes c @ [(f, ip)]) (mc_loaded c) (mc_rows c)) s),
      srv_load = (\<lambda>name s. mem_upd name (\<lambda>c. MemCollection (mc_schema c) (mc_indexes c) True (mc_rows c)) s),
      srv_insert = (\<lambda>name d s.
         case map_of s name of
           None \<Rightarrow> (Inl (MilvusException ''collection not found''), s)
         | Some c \<Rightarrow>
            (let names = map fs_name (filter (\<lambda>f. \<not> fs_auto_id f) (mc_schema c))
             in if length d = length names \<and> list_all (\<lambda>col. length col = 1) d
                then mem_upd name (\<lambda>c. MemCollection (mc_schema c) (mc_indexes c) (mc_loaded c)
                        (mc_rows c @ [(''id'', PInt (int (length (mc_rows c)))) # zip names (map hd d)])) s
                else (Inl (MilvusException ''data does not match the schema''), s))),
      srv_search = (\<lambda>name rq s.
         case map_of s name of
           None \<Rightarrow> (Inl (MilvusException ''collection not found''), s)
         | Some c \<Rightarrow>
            (case rq_data rq of
               None \<Rightarrow> (Inl (MilvusException ''no query vector''), s)
             | Some qs \<Rightarrow>
                if \<not> mc_loaded c \<or> rq_limit rq \<le> 0
                then (Inl (MilvusException ''not loaded or bad limit''), s)
                else (Inr (map (\<lambda>q. map (mem_hit dist (rq_output_fields rq) q)
                                 (take (nat (rq_limit rq))
                                    (filter (\<lambda>row. sat (rq_expr rq) (map_of row)) (mc_rows c)))) qs), s)))\<rparr>"

definition example_rt :: "int pyrt" where
  "example_rt = \<lparr>float_bool = (\<lambda>x. x \<noteq> 0), float_json = (\<lambda>x. str_int x @ ''.0''),
                 float_parse = (\<lambda>s. 0)\<rparr>"

definition example_sat :: "string \<Rightarrow> (string \<rightharpoonup> int pyval) \<Rightarrow> bool" where
  "example_sat e row =
     (e = [] \<or> (case row ''user_id'' of
                  Some (PStr u) \<Rightarrow> e = ''user_id == '' @ [CHR 0x27] @ u @ [CHR 0x27]
                | _ \<Rightarrow> False))"

definition example_milvus :: "(int, int mem_server) milvus" where
  "example_milvus = mem_milvus example_sat (\<lambda>q row. 0)"

definition example_world :: "(int, int mem_server) world" where
  "example_world = \<lparr>server = [], issued = []\<rparr>"

definition example_client :: client where
  "example_client = fst (MilvusClient_init example_milvus ''localhost'' 19530 30 example_world)"

definition example_doc :: "int document" where
  "example_doc = \<lparr>page_content = ''hello world'',
     metadata = [''user_id'' \<mapsto> PStr ''tenant_42'', ''kb_id'' \<mapsto> PStr ''kb1'', ''file_id'' \<mapsto> PStr ''f1'',
                 ''doc_id'' \<mapsto> PStr ''d1'', ''headers'' \<mapsto> PDict [(PStr ''h1'', PStr ''Title'')]]\<rparr>"

text \<open>
  The scenario of the spec on this store: a fresh client loads the new collection
  \<^verbatim>\<open>tenant_42\<close>, stores one document and searches for it.
\<close>

definition example_loaded :: client where
  "example_loaded =
     fst (snd (load_collection example_milvus example_client ''tenant_42'' example_world))"

definition example_loaded_world :: "(int, int mem_server) world" where
  "example_loaded_world =
     snd (snd (load_collection example_milvus example_client ''tenant_42'' example_world))"

definition example_embedding :: "int list" where
  "example_embedding = replicate 768 0"

definition example_stored_world :: "(int, int mem_server) world" where
  "example_stored_world =
     snd (store_doc example_milvus example_rt example_loaded example_doc (Some example_embedding)
            example_loaded_world)"

definition example_filter :: string where
  "example_filter = ''user_id == '' @ [CHR 0x27] @ ''tenant_42'' @ [CHR 0x27]"



section \<open>The json round trip\<close>

text \<open>
  The scanner is unfolded by hand in the proofs below.
\<close>

declare scan_once.simps [simp del]

subsection \<open>Strings, numbers and literals\<close>

























subsection \<open>Arrays, objects and the whole text\<close>





















subsection \<open>The fuel of the scanner\<close>

text \<open>
  Every successful call of the scanner consumes input, so the fuel that \<open>json_loads\<close>
  supplies is never used up: with more fuel the scanner returns the same.
\<close>

lemma skip_ws_length: "length (skip_ws s) \<le> length s"
  by (simp add: skip_ws_def length_dropWhile_le)

lemma scanstring_shorter:
  "scanstring cs = Some (x, r) \<Longrightarrow> length r < length cs"
proof (induction cs arbitrary: x r rule: length_induct)
  case (1 cs)
  note IH = 1(1) and p = 1(2)
  show ?case
  proof (cases cs)
    case Nil
    with p show ?thesis by simp
  next
    case (Cons c cs')
    show ?thesis
    proof (cases "c = CHR 0x22")
      case True
      with p Cons show ?thesis by simp
    next
      case nq: False
      show ?thesis
      proof (cases "c = CHR 0x5C")
        case True
        with p Cons nq obtain e r1 where r1: "cs' = e # r1" by (cases cs') auto
        show ?thesis
        proof (cases "e = CHR ''u''")
          case u: True
          from p Cons nq True r1 u obtain h1 h2 h3 h4 r' where r': "r1 = h1 # h2 # h3 # h4 # r'"
            by (auto split: list.splits)
          from p Cons nq True r1 u r' obtain s where "scanstring r' = Some (s, r)"
            by (auto split: option.splits if_splits)
          moreover have "length r' < length cs" using Cons r1 r' by simp
          ultimately have "length r < length r'" using IH by blast
          then show ?thesis using Cons r1 r' by simp
        next
          case False
          from p Cons nq True r1 False obtain s where "scanstring r1 = Some (s, r)"
            by (auto split: option.splits if_splits)
          moreover have "length r1 < length cs" using Cons r1 by simp
          ultimately have "length r < length r1" using IH by blast
          then show ?thesis using Cons r1 by simp
        qed
      next
        case False
        from p Cons nq False obtain s where "scanstring cs' = Some (s, r)"
          by (auto split: option.splits if_splits)
        moreover have "length cs' < length cs" using Cons by simp
        ultimately have "length r < length cs'" using IH by blast
        then show ?thesis using Cons by simp
      qed
    qed
  qed
qed

lemma match_number_shorter:
  assumes "match_number s = Some (a, b, c, r)"
  shows "length r < length s"
proof -
  have dw: "\<And>xs. length (dropWhile is_digit xs) \<le> length xs" by (rule length_dropWhile_le)
  obtain sg s1 where s1: "(case s of [] \<Rightarrow> ([], s) | c # r \<Rightarrow> if c = CHR ''-'' then ([c], r) else ([], s)) = (sg, s1)"
    by (rule prod.exhaust)
  have l1: "length s1 \<le> length s"
  proof (cases s)
    case Nil
    with s1 show ?thesis by simp
  next
    case (Cons x xs)
    with s1 show ?thesis by (cases "x = CHR ''-''") auto
  qed
  have m1: "match_number s =
     (case s1 of
        [] \<Rightarrow> None
      | d # r \<Rightarrow>
         if \<not> is_digit d then None
         else
           let (ip, s2) = (if d = CHR ''0'' then ([d], r) else (takeWhile is_digit s1, dropWhile is_digit s1));
               (frac, s3) = (case s2 of
                               p # r2 \<Rightarrow>
                                 if p = CHR ''.'' \<and> takeWhile is_digit r2 \<noteq> []
                                 then (p # takeWhile is_digit r2, dropWhile is_digit r2)
                                 else ([], s2)
                             | [] \<Rightarrow> ([], s2));
               (ex, s4) = (case s3 of
                             e # r3 \<Rightarrow>
                               if e = CHR ''e'' \<or> e = CHR ''E'' then
                                 (let (sg, r4) = (case r3 of
                                                    g # r5 \<Rightarrow> if g = CHR ''+'' \<or> g = CHR ''-'' then ([g], r5) else ([], r3)
                                                  | [] \<Rightarrow> ([], r3))
                                  in if takeWhile is_digit r4 \<noteq> []
                                     then (e # sg @ takeWhile is_digit r4, dropWhile is_digit r4)
                                     else ([], s3))
                               else ([], s3)
                           | [] \<Rightarrow> ([], s3))
           in Some (sg @ ip, frac, ex, s4))"
    unfolding match_number_def s1 Let_def prod.case ..
  from assms m1 obtain d r0 where d: "s1 = d # r0" by (cases s1) auto
  from assms m1 d have dd: "is_digit d" by (cases "is_digit d") auto
  obtain ip s2 where s2: "(if d = CHR ''0'' then ([d], r0) else (takeWhile is_digit (d # r0), dropWhile is_digit (d # r0))) = (ip, s2)"
    by (rule prod.exhaust)
  have l2: "length s2 \<le> length r0"
  proof (cases "d = CHR ''0''")
    case True
    with s2 show ?thesis by simp
  next
    case False
    with s2 dd have "s2 = dropWhile is_digit r0" by simp
    then show ?thesis by (simp add: dw)
  qed
  obtain fr s3 where s3: "(case s2 of
                               p # r2 \<Rightarrow>
                                 if p = CHR ''.'' \<and> takeWhile is_digit r2 \<noteq> []
                                 then (p # takeWhile is_digit r2, dropWhile is_digit r2)
                                 else ([], s2)
                             | [] \<Rightarrow> ([], s2)) = (fr, s3)"
    by (rule prod.exhaust)
  have l3: "length s3 \<le> length s2"
  proof (cases s2)
    case Nil
    with s3 show ?thesis by simp
  next
    case (Cons p r2)
    show ?thesis
    proof (cases "p = CHR ''.'' \<and> takeWhile is_digit r2 \<noteq> []")
      case True
      with s3 Cons have "s3 = dropWhile is_digit r2" by simp
      then show ?thesis using dw [of r2] Cons by simp
    next
      case False
      with s3 Cons have "s3 = s2" by auto
      then show ?thesis by simp
    qed
  qed
  obtain ex s4 where s4: "(case s3 of
                             e # r3 \<Rightarrow>
                               if e = CHR ''e'' \<or> e = CHR ''E'' then
                                 (let (sg, r4) = (case r3 of
                                                    g # r5 \<Rightarrow> if g = CHR ''+'' \<or> g = CHR ''-'' then ([g], r5) else ([], r3)
                                                  | [] \<Rightarrow> ([], r3))
                                  in if takeWhile is_digit r4 \<noteq> []
                                     then (e # sg @ takeWhile is_digit r4, dropWhile is_digit r4)
                                     else ([], s3))
                               else ([], s3)
                           | [] \<Rightarrow> ([], s3)) = (ex, s4)"
    by (rule prod.exhaust)
  have l4: "length s4 \<le> length s3"
  proof (cases s3)
    case Nil
    with s4 show ?thesis by simp
  next
    case (Cons e r3)
    obtain sg' r4 where r4: "(case r3 of
                                g # r5 \<Rightarrow> if g = CHR ''+'' \<or> g = CHR ''-'' then ([g], r5) else ([], r3)
                              | [] \<Rightarrow> ([], r3)) = (sg', r4)"
      by (rule prod.exhaust)
    have lr4: "length r4 \<le> length r3"
    proof (cases r3)
      case Nil
      with r4 show ?thesis by simp
    next
      case c2: (Cons g r5)
      with r4 show ?thesis by (cases "g = CHR ''+'' \<or> g = CHR ''-''") auto
    qed
    have "s4 = dropWhile is_digit r4 \<or> s4 = s3"
      using s4 unfolding Cons list.case r4 Let_def prod.case
      by (auto split: if_splits)
    then show ?thesis using dw [of r4] lr4 Cons by auto
  qed
  have "match_number s = Some (sg @ ip, fr, ex, s4)"
    unfolding m1 d list.case using dd
    by (simp only: simp_thms if_False Let_def s2 s3 s4 [unfolded Let_def] prod.case)
  with assms have "r = s4" by simp
  with l1 l2 l3 l4 d show ?thesis by simp
qed

lemma starts_with_drop:
  assumes "starts_with p s" and "p \<noteq> []"
  shows "length (drop (length p) s) < length s"
proof -
  from assms(1) have "length p \<le> length s"
    by (metis starts_with_def length_take min.cobounded1)
  with assms(2) show ?thesis by (cases p) auto
qed

lemma scan_atom_shorter:
  assumes "scan_atom rt s = Some (v, r)"
  shows "length r < length s"
proof -
  have d: "starts_with p s \<Longrightarrow> p \<noteq> [] \<Longrightarrow> length (drop (length p) s) < length s" for p
    using starts_with_drop by blast
  show ?thesis
  proof (cases "starts_with ''null'' s")
    case True
    with assms show ?thesis using d [of "''null''"] by (auto simp: scan_atom_def)
  next
    case n1: False
    show ?thesis
    proof (cases "starts_with ''true'' s")
      case True
      with assms n1 show ?thesis using d [of "''true''"] by (auto simp: scan_atom_def)
    next
      case n2: False
      show ?thesis
      proof (cases "starts_with ''false'' s")
        case True
        with assms n1 n2 show ?thesis using d [of "''false''"] by (auto simp: scan_atom_def)
      next
        case n3: False
        show ?thesis
        proof (cases "match_number s")
          case (Some t)
          obtain a b c r' where t: "t = (a, b, c, r')" by (cases t) auto
          with Some have "length r' < length s" using match_number_shorter by blast
          moreover from assms n1 n2 n3 Some t have "r = r'"
            by (auto simp: scan_atom_def split: if_splits)
          ultimately show ?thesis by simp
        next
          case None
          with assms n1 n2 n3 show ?thesis
            using d [of "''NaN''"] d [of "''Infinity''"] d [of "''-Infinity''"]
            by (auto simp: scan_atom_def split: if_splits)
        qed
      qed
    qed
  qed
qed

lemma scan_shorter:
  "(\<forall>s v r. scan_once rt n s = Some (v, r) \<longrightarrow> length r < length s)
   \<and> (\<forall>s vs r. scan_elems rt n s = Some (vs, r) \<longrightarrow> length r < length s)
   \<and> (\<forall>s kvs r. scan_members rt n s = Some (kvs, r) \<longrightarrow> length r < length s)"
proof (induction n)
  case 0
  show ?case by (simp add: scan_once.simps)
next
  case (Suc n)
  then have IH1: "\<And>s v r. scan_once rt n s = Some (v, r) \<Longrightarrow> length r < length s"
    and IH2: "\<And>s vs r. scan_elems rt n s = Some (vs, r) \<Longrightarrow> length r < length s"
    and IH3: "\<And>s kvs r. scan_members rt n s = Some (kvs, r) \<Longrightarrow> length r < length s"
    by blast+
  have sk: "\<And>t d r. skip_ws t = d # r \<Longrightarrow> length r < length t"
  proof -
    fix t d r
    assume "skip_ws t = d # r"
    then show "length r < length t" using skip_ws_length [of t] by simp
  qed
  have a: "scan_once rt (Suc n) s = Some (v, r) \<Longrightarrow> length r < length s" for s v r
  proof -
    assume p: "scan_once rt (Suc n) s = Some (v, r)"
    then obtain c cs where s: "s = c # cs" by (cases s) (auto simp: scan_once.simps)
    show "length r < length s"
    proof (cases "c = CHR 0x22")
      case True
      with p s obtain x where "scanstring cs = Some (x, r)"
        by (auto simp: scan_once.simps split: option.splits)
      then show ?thesis using scanstring_shorter s by fastforce
    next
      case nq: False
      show ?thesis
      proof (cases "c = CHR ''{''")
        case True
        from p s nq True obtain d t where t: "skip_ws cs = d # t"
          by (cases "skip_ws cs") (auto simp: scan_once.simps)
        show ?thesis
        proof (cases "d = CHR ''}''")
          case True
          with p s nq \<open>c = CHR ''{''\<close> t have "r = t" by (simp add: scan_once.simps)
          then show ?thesis using sk [OF t] s by simp
        next
          case False
          with p s nq \<open>c = CHR ''{''\<close> t obtain kvs where "scan_members rt n (d # t) = Some (kvs, r)"
            by (auto simp: scan_once.simps split: option.splits)
          then have "length r < length (d # t)" by (rule IH3)
          then show ?thesis using sk [OF t] s by simp
        qed
      next
        case nb: False
        show ?thesis
        proof (cases "c = CHR ''[''")
          case True
          from p s nq nb True obtain d t where t: "skip_ws cs = d # t"
            by (cases "skip_ws cs") (auto simp: scan_once.simps)
          show ?thesis
          proof (cases "d = CHR '']''")
            case True
            with p s nq nb \<open>c = CHR ''[''\<close> t have "r = t" by (simp add: scan_once.simps)
            then show ?thesis using sk [OF t] s by simp
          next
            case False
            with p s nq nb \<open>c = CHR ''[''\<close> t obtain vs where "scan_elems rt n (d # t) = Some (vs, r)"
              by (auto simp: scan_once.simps split: option.splits)
            then have "length r < length (d # t)" by (rule IH2)
            then show ?thesis using sk [OF t] s by simp
          qed
        next
          case False
          with p s nq nb have "scan_atom rt s = Some (v, r)" by (simp add: scan_once.simps)
          then show ?thesis by (rule scan_atom_shorter)
        qed
      qed
    qed
  qed
  have b: "scan_elems rt (Suc n) s = Some (vs, r) \<Longrightarrow> length r < length s" for s vs r
  proof -
    assume p: "scan_elems rt (Suc n) s = Some (vs, r)"
    then obtain v r1 where v: "scan_once rt n s = Some (v, r1)"
      by (cases "scan_once rt n s") (auto simp: scan_once.simps)
    then have l1: "length r1 < length s" by (rule IH1)
    from p v obtain d t where t: "skip_ws r1 = d # t"
      by (cases "skip_ws r1") (auto simp: scan_once.simps)
    have l2: "length t < length r1" by (rule sk [OF t])
    show "length r < length s"
    proof (cases "d = CHR '']''")
      case True
      with p v t have "r = t" by (simp add: scan_once.simps)
      then show ?thesis using l1 l2 by simp
    next
      case False
      with p v t obtain vs' where "scan_elems rt n (skip_ws t) = Some (vs', r)"
        by (auto simp: scan_once.simps split: option.splits if_splits)
      then have "length r < length (skip_ws t)" by (rule IH2)
      then show ?thesis using l1 l2 skip_ws_length [of t] by simp
    qed
  qed
  have c: "scan_members rt (Suc n) s = Some (kvs, r) \<Longrightarrow> length r < length s" for s kvs r
  proof -
    assume p: "scan_members rt (Suc n) s = Some (kvs, r)"
    then obtain q s1 where s: "s = q # s1" by (cases s) (auto simp: scan_once.simps)
    from p s have q: "q = CHR 0x22" by (auto simp: scan_once.simps split: if_splits)
    from p s q obtain k r0 where k: "scanstring s1 = Some (k, r0)"
      by (cases "scanstring s1") (auto simp: scan_once.simps)
    then have l0: "length r0 < length s1" by (rule scanstring_shorter)
    from p s q k obtain c1 r1 where r1: "skip_ws r0 = c1 # r1"
      by (cases "skip_ws r0") (auto simp: scan_once.simps)
    have l1: "length r1 < length r0" by (rule sk [OF r1])
    from p s q k r1 have c1: "c1 = CHR '':''" by (auto simp: scan_once.simps split: if_splits)
    from p s q k r1 c1 obtain v r2 where v: "scan_once rt n (skip_ws r1) = Some (v, r2)"
      by (cases "scan_once rt n (skip_ws r1)") (auto simp: scan_once.simps)
    then have "length r2 < length (skip_ws r1)" by (rule IH1)
    then have l2: "length r2 < length r1" using skip_ws_length [of r1] by simp
    from p s q k r1 c1 v obtain d r3 where r3: "skip_ws r2 = d # r3"
      by (cases "skip_ws r2") (auto simp: scan_once.simps)
    have l3: "length r3 < length r2" by (rule sk [OF r3])
    show "length r < length s"
    proof (cases "d = CHR ''}''")
      case True
      with p s q k r1 c1 v r3 have "r = r3" by (simp add: scan_once.simps)
      then show ?thesis using s l0 l1 l2 l3 by simp
    next
      case False
      with p s q k r1 c1 v r3 obtain kvs' where "scan_members rt n (skip_ws r3) = Some (kvs', r)"
        by (auto simp: scan_once.simps split: option.splits if_splits)
      then have "length r < length (skip_ws r3)" by (rule IH3)
      then show ?thesis using s l0 l1 l2 l3 skip_ws_length [of r3] by simp
    qed
  qed
  from a b c show ?case by blast
qed

lemma scan_fuel:
  "(\<forall>s m. 2 * length s \<le> n \<and> 2 * length s \<le> m \<longrightarrow> scan_once rt n s = scan_once rt m s)
   \<and> (\<forall>s m. 2 * length s + 1 \<le> n \<and> 2 * length s + 1 \<le> m
          \<longrightarrow> scan_elems rt n s = scan_elems rt m s)
   \<and> (\<forall>s m. 2 * length s + 1 \<le> n \<and> 2 * length s + 1 \<le> m
          \<longrightarrow> scan_members rt n s = scan_members rt m s)"
proof (induction n)
  case 0
  have "scan_once rt 0 [] = scan_once rt m []" for m
    by (cases m) (simp_all add: scan_once.simps)
  then show ?case by simp
next
  case (Suc n)
  then have IH1: "\<And>s m. 2 * length s \<le> n \<Longrightarrow> 2 * length s \<le> m \<Longrightarrow> scan_once rt n s = scan_once rt m s"
    and IH2: "\<And>s m. 2 * length s + 1 \<le> n \<Longrightarrow> 2 * length s + 1 \<le> m
                \<Longrightarrow> scan_elems rt n s = scan_elems rt m s"
    and IH3: "\<And>s m. 2 * length s + 1 \<le> n \<Longrightarrow> 2 * length s + 1 \<le> m
                \<Longrightarrow> scan_members rt n s = scan_members rt m s"
    by blast+
  have sk: "\<And>t d r. skip_ws t = d # r \<Longrightarrow> length r < length t"
  proof -
    fix t d r
    assume "skip_ws t = d # r"
    then show "length r < length t" using skip_ws_length [of t] by simp
  qed
  have a: "scan_once rt (Suc n) s = scan_once rt m s"
    if l: "2 * length s \<le> Suc n" "2 * length s \<le> m" for s m
  proof (cases s)
    case Nil
    then show ?thesis by (cases m) (simp_all add: scan_once.simps)
  next
    case (Cons c cs)
    with l obtain m' where m: "m = Suc m'" by (cases m) auto
    have mem: "scan_members rt n (d # t) = scan_members rt m' (d # t)" if "skip_ws cs = d # t" for d t
    proof (rule IH3)
      show "2 * length (d # t) + 1 \<le> n" using sk [OF that] l(1) Cons by simp
      show "2 * length (d # t) + 1 \<le> m'" using sk [OF that] l(2) Cons m by simp
    qed
    have el: "scan_elems rt n (d # t) = scan_elems rt m' (d # t)" if "skip_ws cs = d # t" for d t
    proof (rule IH2)
      show "2 * length (d # t) + 1 \<le> n" using sk [OF that] l(1) Cons by simp
      show "2 * length (d # t) + 1 \<le> m'" using sk [OF that] l(2) Cons m by simp
    qed
    show ?thesis
    proof (cases "skip_ws cs")
      case Nil
      then show ?thesis by (simp add: Cons m scan_once.simps)
    next
      case sc: (Cons d t)
      show ?thesis
        by (simp add: Cons m scan_once.simps sc mem [OF sc] el [OF sc])
    qed
  qed
  have b: "scan_elems rt (Suc n) s = scan_elems rt m s"
    if l: "2 * length s + 1 \<le> Suc n" "2 * length s + 1 \<le> m" for s m
  proof -
    from l obtain m' where m: "m = Suc m'" by (cases m) auto
    have o: "scan_once rt n s = scan_once rt m' s"
      by (rule IH1) (use l m in simp_all)
    show ?thesis
    proof (cases "scan_once rt m' s")
      case None
      with o show ?thesis by (simp add: m scan_once.simps)
    next
      case (Some p)
      obtain v r1 where p: "p = (v, r1)" by (cases p)
      from Some p o have "scan_once rt n s = Some (v, r1)" by simp
      then have l1: "length r1 < length s" using scan_shorter [of rt n] by blast
      show ?thesis
      proof (cases "skip_ws r1")
        case Nil
        with o Some p show ?thesis by (simp add: m scan_once.simps)
      next
        case (Cons d t)
        have l2: "length t < length r1" by (rule sk [OF Cons])
        have "scan_elems rt n (skip_ws t) = scan_elems rt m' (skip_ws t)"
        proof (rule IH2)
          show "2 * length (skip_ws t) + 1 \<le> n"
            using l1 l2 l(1) skip_ws_length [of t] by simp
          show "2 * length (skip_ws t) + 1 \<le> m'"
            using l1 l2 l(2) m skip_ws_length [of t] by simp
        qed
        with o Some p Cons show ?thesis by (simp add: m scan_once.simps)
      qed
    qed
  qed
  have c: "scan_members rt (Suc n) s = scan_members rt m s"
    if l: "2 * length s + 1 \<le> Suc n" "2 * length s + 1 \<le> m" for s m
  proof -
    from l obtain m' where m: "m = Suc m'" by (cases m) auto
    show ?thesis
    proof (cases s)
      case Nil
      then show ?thesis by (simp add: m scan_once.simps)
    next
      case s: (Cons q s1)
      show ?thesis
      proof (cases "scanstring s1")
        case None
        then show ?thesis by (simp add: m s scan_once.simps)
      next
        case (Some p)
        obtain k r0 where p: "p = (k, r0)" by (cases p)
        have l0: "length r0 < length s1" using Some p scanstring_shorter by blast
        show ?thesis
        proof (cases "skip_ws r0")
          case Nil
          with Some p show ?thesis by (simp add: m s scan_once.simps)
        next
          case r1: (Cons c1 r1)
          have l1: "length r1 < length r0" by (rule sk [OF r1])
          have o: "scan_once rt n (skip_ws r1) = scan_once rt m' (skip_ws r1)"
          proof (rule IH1)
            show "2 * length (skip_ws r1) \<le> n"
              using l0 l1 l(1) s skip_ws_length [of r1] by simp
            show "2 * length (skip_ws r1) \<le> m'"
              using l0 l1 l(2) m s skip_ws_length [of r1] by simp
          qed
          show ?thesis
          proof (cases "scan_once rt m' (skip_ws r1)")
            case None
            with o Some p r1 show ?thesis by (simp add: m s scan_once.simps)
          next
            case v: (Some pv)
            obtain v r2 where pv: "pv = (v, r2)" by (cases pv)
            from v pv o have "scan_once rt n (skip_ws r1) = Some (v, r2)" by simp
            then have "length r2 < length (skip_ws r1)" using scan_shorter [of rt n] by blast
            then have l2: "length r2 < length r1" using skip_ws_length [of r1] by simp
            show ?thesis
            proof (cases "skip_ws r2")
              case Nil
              with o Some p r1 v pv show ?thesis by (simp add: m s scan_once.simps)
            next
              case r3: (Cons d r3)
              have l3: "length r3 < length r2" by (rule sk [OF r3])
              have "scan_members rt n (skip_ws r3) = scan_members rt m' (skip_ws r3)"
              proof (rule IH3)
                show "2 * length (skip_ws r3) + 1 \<le> n"
                  using l0 l1 l2 l3 l(1) s skip_ws_length [of r3] by simp
                show "2 * length (skip_ws r3) + 1 \<le> m'"
                  using l0 l1 l2 l3 l(2) m s skip_ws_length [of r3] by simp
              qed
              with o Some p r1 v pv r3 show ?thesis by (simp add: m s scan_once.simps)
            qed
          qed
        qed
      qed
    qed
  qed
  from a b c show ?case by blast
qed

lemma json_loads_fuel:
  assumes "2 * length s + 2 \<le> n"
  shows "scan_once rt n (skip_ws s) = scan_once rt (2 * length s + 2) (skip_ws s)"
proof -
  have "2 * length (skip_ws s) \<le> 2 * length s + 2" using skip_ws_length [of s] by simp
  moreover have "2 * length (skip_ws s) \<le> n" using skip_ws_length [of s] assms by simp
  ultimately show ?thesis using scan_fuel [of "2 * length s + 2" rt] by metis
qed

section \<open>Properties of the client\<close>

subsection \<open>Facts about the methods and the examples\<close>

lemma retrieve_docs_Inr:
  "retrieve_docs rt hs = Inr ds \<longleftrightarrow> list_all2 (\<lambda>h d. hit_doc rt h = Inr d) hs ds"
proof (induction hs arbitrary: ds)
  case Nil
  then show ?case by auto
next
  case (Cons h hs)
  show ?case
  proof (cases "hit_doc rt h")
    case (Inl e)
    then show ?thesis by (cases ds) auto
  next
    case d: (Inr d)
    show ?thesis
    proof (cases "retrieve_docs rt hs")
      case (Inl e)
      with d Cons.IH [of "tl ds"] show ?thesis by (cases ds) auto
    next
      case (Inr ds')
      with d Cons.IH [of ds'] Cons.IH [of "tl ds"] show ?thesis by (cases ds) auto
    qed
  qed
qed



lemma search_docs_loaded:
  assumes "sess c = Some h"
  shows "search_docs m rt c q f l w =
     (case srv_search m h (search_kwargs c q f (case l of None \<Rightarrow> 10 | Some x \<Rightarrow> x)) (server w) of
        (Inl e, s') \<Rightarrow>
          (Inl (MilvusFailed (''Failed to search documents: '' @ str_exc e)),
           \<lparr>server = s', issued = issued w @ [Search h (search_kwargs c q f (case l of None \<Rightarrow> 10 | Some x \<Rightarrow> x))]\<rparr>)
      | (Inr results, s') \<Rightarrow>
          (case retrieve_docs rt (concat results) of
             Inl e \<Rightarrow> Inl (MilvusFailed (''Failed to search documents: '' @ str_exc e))
           | Inr docs \<Rightarrow> Inr docs,
           \<lparr>server = s', issued = issued w @ [Search h (search_kwargs c q f (case l of None \<Rightarrow> 10 | Some x \<Rightarrow> x))]\<rparr>))"
  using assms
  by (simp add: search_docs_def search_docs_try_def get_time_def issue_def Let_def
           split: prod.splits sum.splits)



lemma MilvusClient_init_not_loaded:
  "sess (fst (MilvusClient_init m h p k w)) = None"
  by (simp add: MilvusClient_init_def issue_def split: prod.splits)

lemma load_collection_failure_keeps_client:
  assumes "load_collection m c name w = (Inl e, c', w')"
  shows "c' = c"
  using assms
  by (auto simp: load_collection_def get_time_def split: prod.splits sum.splits if_splits)

lemma example_client_eq:
  "example_client = \<lparr>host = ''localhost'', port = 19530, sess = None, top_k = 30,
      search_params = \<lparr>sp_metric_type = ''L2'', sp_params = [(''nprobe'', 128)]\<rparr>,
      create_params = \<lparr>ip_metric_type = ''L2'', ip_index_type = ''IVF_FLAT'', ip_params = [(''nlist'', 1024)]\<rparr>\<rparr>"
  by (simp add: example_client_def MilvusClient_init_def issue_def split: prod.splits)

lemma example_loaded_sess: "sess example_loaded = Some ''tenant_42''"
  by code_simp

lemma example_headers_dumps:
  \<open>json_dumps example_rt (dict_get_default (metadata example_doc) ''headers'' (PDict []))
     = Inr ''{"h1": "Title"}''\<close>
  by code_simp

lemma example_doc_truthy:
  "list_all (truthy example_rt)
     [dict_get (metadata example_doc) ''user_id'', dict_get (metadata example_doc) ''kb_id'',
      dict_get (metadata example_doc) ''file_id'', dict_get (metadata example_doc) ''doc_id'',
      PStr (page_content example_doc), embedding_val (Some example_embedding)]"
  by code_simp





subsection \<open>Store, then search\<close>




subsection \<open>The collection must be loaded\<close>

text \<open>
  \<^bold>\<open>C3.\<close> On a client whose collection has not been loaded (\<^verbatim>\<open>self.sess\<close> is still \<^verbatim>\<open>None\<close>,
  as the constructor leaves it and a failed \<^verbatim>\<open>load_collection_\<close> keeps it), \<^verbatim>\<open>store_doc\<close> and
  \<^verbatim>\<open>search_docs\<close> both fail with the not-loaded error, for every store, document, embedding,
  query, filter and limit, and the world comes back as it was: no insert and no search is
  issued. The error is the client's one exception class, \<^verbatim>\<open>MilvusFailed\<close>, carrying the
  not-loaded message.
\<close>

theorem not_loaded_fails:
  assumes "sess c = None"
  shows "store_doc m rt c doc embedding w =
           (Inl (MilvusFailed ''Failed to store document: Milvus collection is not loaded. Call load_collection_() first.''), w)
       \<and> search_docs m rt c query_embedding filter_expr doc_limit w =
           (Inl (MilvusFailed ''Failed to search documents: Milvus collection is not loaded. Call load_collection_() first.''), w)"
  using assms by (simp add: store_doc_def store_doc_try_def search_docs_def search_docs_try_def get_time_def)

theorem not_loaded_fails_witness:
  "sess example_client = None
   \<and> store_doc example_milvus example_rt example_client example_doc (Some [0]) example_world =
       (Inl (MilvusFailed ''Failed to store document: Milvus collection is not loaded. Call load_collection_() first.''), example_world)
   \<and> search_docs example_milvus example_rt example_client (Some [0]) None None example_world =
       (Inl (MilvusFailed ''Failed to search documents: Milvus collection is not loaded. Call load_collection_() first.''), example_world)"
proof -
  have h: "sess example_client = None" by (simp add: example_client_eq)
  show ?thesis
    using h not_loaded_fails [OF h, of example_milvus example_rt example_doc "Some [0]" example_world "Some [0]" None None]
    by simp
qed

subsection \<open>Validation in store_doc\<close>

text \<open>
  \<^bold>\<open>C2.\<close> When one of \<^verbatim>\<open>user_id\<close>, \<^verbatim>\<open>kb_id\<close>, \<^verbatim>\<open>file_id\<close>, \<^verbatim>\<open>doc_id\<close>, the content or the
  embedding is empty or absent (falsy, as \<^verbatim>\<open>all([...])\<close> reads it: \<^verbatim>\<open>None\<close>, a missing key,
  the empty string, the empty list), \<^verbatim>\<open>store_doc\<close> fails with \<^verbatim>\<open>MilvusFailed\<close> on every
  client and every store, and the world comes back as it was: the failure is raised
  before any call to the store, and nothing is written. On a loaded client whose headers
  serialize, the message is the one of the validation check.
\<close>

theorem store_doc_missing_field:
  assumes "\<not> truthy rt (dict_get (metadata doc) ''user_id'')
         \<or> \<not> truthy rt (dict_get (metadata doc) ''kb_id'')
         \<or> \<not> truthy rt (dict_get (metadata doc) ''file_id'')
         \<or> \<not> truthy rt (dict_get (metadata doc) ''doc_id'')
         \<or> page_content doc = []
         \<or> embedding = None \<or> embedding = Some []"
  shows "\<exists>msg. store_doc m rt c doc embedding w = (Inl (MilvusFailed msg), w)
           \<and> (sess c \<noteq> None
                \<and> (\<exists>s. json_dumps rt (dict_get_default (metadata doc) ''headers'' (PDict [])) = Inr s)
              \<longrightarrow> msg = ''Failed to store document: Missing required fields in document metadata or embedding.'')"
proof -
  have bad: "\<not> list_all (truthy rt)
               [dict_get (metadata doc) ''user_id'', dict_get (metadata doc) ''kb_id'',
                dict_get (metadata doc) ''file_id'', dict_get (metadata doc) ''doc_id'',
                PStr (page_content doc), embedding_val embedding]"
    using assms by (auto simp: embedding_val_def)
  show ?thesis
  proof (cases "sess c")
    case None
    then show ?thesis by (simp add: store_doc_def store_doc_try_def)
  next
    case (Some h)
    show ?thesis
    proof (cases "json_dumps rt (dict_get_default (metadata doc) ''headers'' (PDict []))")
      case (Inl e)
      with Some show ?thesis by (simp add: store_doc_def store_doc_try_def)
    next
      case (Inr s)
      with Some bad show ?thesis by (simp add: store_doc_def store_doc_try_def Let_def)
    qed
  qed
qed

theorem store_doc_missing_field_witness:
  "store_doc example_milvus example_rt example_loaded example_doc (Some []) example_loaded_world
     = (Inl (MilvusFailed ''Failed to store document: Missing required fields in document metadata or embedding.''),
        example_loaded_world)"
proof -
  have e: "\<not> truthy example_rt (dict_get (metadata example_doc) ''user_id'')
         \<or> \<not> truthy example_rt (dict_get (metadata example_doc) ''kb_id'')
         \<or> \<not> truthy example_rt (dict_get (metadata example_doc) ''file_id'')
         \<or> \<not> truthy example_rt (dict_get (metadata example_doc) ''doc_id'')
         \<or> page_content example_doc = []
         \<or> (Some [] :: int list option) = None \<or> (Some [] :: int list option) = Some []"
    by simp
  have l: "sess example_loaded \<noteq> None
           \<and> (\<exists>s. json_dumps example_rt (dict_get_default (metadata example_doc) ''headers'' (PDict [])) = Inr s)"
    using example_loaded_sess example_headers_dumps by simp
  from store_doc_missing_field [OF e, of example_milvus example_loaded example_loaded_world] l
  show ?thesis by auto
qed

text \<open>
  \<^bold>\<open>C10.\<close> For a document that passes the validation (on a loaded client, with headers
  that serialize), the insert that \<^verbatim>\<open>store_doc\<close> issues carries seven columns which pair,
  in order, with the names of the schema's fields that are not auto-generated:
  \<^verbatim>\<open>user_id\<close>, \<^verbatim>\<open>kb_id\<close>, \<^verbatim>\<open>file_id\<close>, \<^verbatim>\<open>headers\<close> (the serialized string), \<^verbatim>\<open>doc_id\<close>,
  \<^verbatim>\<open>content\<close>, \<^verbatim>\<open>embedding\<close>. There are as many columns as such fields, and the only
  auto-generated field is \<^verbatim>\<open>id\<close>, for which no column is supplied.
\<close>

theorem store_doc_row_order:
  assumes "sess c = Some h"
      and "json_dumps rt (dict_get_default (metadata doc) ''headers'' (PDict [])) = Inr hs"
      and "list_all (truthy rt)
             [dict_get (metadata doc) ''user_id'', dict_get (metadata doc) ''kb_id'',
              dict_get (metadata doc) ''file_id'', dict_get (metadata doc) ''doc_id'',
              PStr (page_content doc), embedding_val embedding]"
  shows "\<exists>d. issued (snd (store_doc m rt c doc embedding w)) = issued w @ [Insert h d]
           \<and> zip (map fs_name (filter (\<lambda>f. \<not> fs_auto_id f) fields)) d =
               [(''user_id'', [dict_get (metadata doc) ''user_id'']),
                (''kb_id'', [dict_get (metadata doc) ''kb_id'']),
                (''file_id'', [dict_get (metadata doc) ''file_id'']),
                (''headers'', [PStr hs]),
                (''doc_id'', [dict_get (metadata doc) ''doc_id'']),
                (''content'', [PStr (page_content doc)]),
                (''embedding'', [embedding_val embedding])]
           \<and> length d = length (filter (\<lambda>f. \<not> fs_auto_id f) fields)
           \<and> map fs_name (filter fs_auto_id fields) = [''id'']"
proof -
  let ?d = "insert_data (dict_get (metadata doc) ''user_id'') (dict_get (metadata doc) ''kb_id'')
              (dict_get (metadata doc) ''file_id'') hs (dict_get (metadata doc) ''doc_id'')
              (page_content doc) embedding"
  have i: "issued (snd (store_doc m rt c doc embedding w)) = issued w @ [Insert h ?d]"
    using assms by (simp add: store_doc_def store_doc_try_def issue_def Let_def split: prod.splits sum.splits)
  have z: "zip (map fs_name (filter (\<lambda>f. \<not> fs_auto_id f) fields)) ?d =
               [(''user_id'', [dict_get (metadata doc) ''user_id'']),
                (''kb_id'', [dict_get (metadata doc) ''kb_id'']),
                (''file_id'', [dict_get (metadata doc) ''file_id'']),
                (''headers'', [PStr hs]),
                (''doc_id'', [dict_get (metadata doc) ''doc_id'']),
                (''content'', [PStr (page_content doc)]),
                (''embedding'', [embedding_val embedding])]"
    by (simp add: fields_def FieldSchema_def insert_data_def)
  have l: "length ?d = length (filter (\<lambda>f. \<not> fs_auto_id f) fields)"
    by (simp add: fields_def FieldSchema_def insert_data_def)
  have a: "map fs_name (filter fs_auto_id fields) = [''id'']"
    by (simp add: fields_def FieldSchema_def)
  show ?thesis
    by (rule exI [where x = ?d], intro conjI) (rule i, rule z, rule l, rule a)
qed

theorem store_doc_row_order_witness:
  \<open>\<exists>d. issued (snd (store_doc example_milvus example_rt example_loaded example_doc (Some example_embedding)
                      example_loaded_world))
         = issued example_loaded_world @ [Insert ''tenant_42'' d]
     \<and> zip (map fs_name (filter (\<lambda>f. \<not> fs_auto_id f) fields)) d =
         [(''user_id'', [PStr ''tenant_42'']), (''kb_id'', [PStr ''kb1'']), (''file_id'', [PStr ''f1'']),
          (''headers'', [PStr ''{"h1": "Title"}'']), (''doc_id'', [PStr ''d1'']),
          (''content'', [PStr ''hello world'']),
          (''embedding'', [PList (map PFloat example_embedding)])]\<close>
proof -
  have g: "dict_get (metadata example_doc) ''user_id'' = PStr ''tenant_42''"
    "dict_get (metadata example_doc) ''kb_id'' = PStr ''kb1''"
    "dict_get (metadata example_doc) ''file_id'' = PStr ''f1''"
    "dict_get (metadata example_doc) ''doc_id'' = PStr ''d1''"
    "page_content example_doc = ''hello world''"
    "embedding_val (Some example_embedding) = PList (map PFloat example_embedding)"
    by (simp_all add: example_doc_def dict_get_def embedding_val_def)
  from store_doc_row_order [OF example_loaded_sess example_headers_dumps example_doc_truthy,
         of example_milvus example_loaded_world]
  show ?thesis
    unfolding g by blast
qed

subsection \<open>The collection lifecycle\<close>

text \<open>
  \<^bold>\<open>C4.\<close> \<^verbatim>\<open>load_collection_\<close> on a client whose \<^verbatim>\<open>create_params\<close> are the constructor's.
  If the store answers that the name does not exist, the client creates the collection
  with exactly the eight-field schema below (\<^verbatim>\<open>id\<close> the auto-generated INT64 primary key,
  the VARCHAR fields with their maximal lengths, the 768-dimensional float vector), then
  builds the index \<^verbatim>\<open>IVF_FLAT\<close>, metric \<^verbatim>\<open>L2\<close>, \<^verbatim>\<open>nlist = 1024\<close> on \<^verbatim>\<open>embedding\<close>, then
  loads the collection. If the name exists, it attaches to it as it is (no schema, no
  index) and loads it. In both cases, when the store accepts the calls, the method
  returns with the handle stored in \<^verbatim>\<open>self.sess\<close>; and whenever the method returns
  normally, the last call it issued is the load of that collection.
\<close>

theorem load_collection_creates_or_attaches:
  assumes "create_params c = create_params (fst (MilvusClient_init m0 hst prt k w0))"
  shows "(srv_has_collection m name s0 = (Inr False, s1)
          \<and> srv_new_collection m name
               [\<lparr>fs_name = ''id'', fs_dtype = INT64, fs_is_primary = True, fs_auto_id = True,
                  fs_max_length = None, fs_dim = None\<rparr>,
                \<lparr>fs_name = ''user_id'', fs_dtype = VARCHAR, fs_is_primary = False, fs_auto_id = False,
                  fs_max_length = Some 64, fs_dim = None\<rparr>,
                \<lparr>fs_name = ''kb_id'', fs_dtype = VARCHAR, fs_is_primary = False, fs_auto_id = False,
                  fs_max_length = Some 64, fs_dim = None\<rparr>,
                \<lparr>fs_name = ''file_id'', fs_dtype = VARCHAR, fs_is_primary = False, fs_auto_id = False,
                  fs_max_length = Some 64, fs_dim = None\<rparr>,
                \<lparr>fs_name = ''headers'', fs_dtype = VARCHAR, fs_is_primary = False, fs_auto_id = False,
                  fs_max_length = Some 256, fs_dim = None\<rparr>,
                \<lparr>fs_name = ''doc_id'', fs_dtype = VARCHAR, fs_is_primary = False, fs_auto_id = False,
                  fs_max_length = Some 64, fs_dim = None\<rparr>,
                \<lparr>fs_name = ''content'', fs_dtype = VARCHAR, fs_is_primary = False, fs_auto_id = False,
                  fs_max_length = Some 4000, fs_dim = None\<rparr>,
                \<lparr>fs_name = ''embedding'', fs_dtype = FLOAT_VECTOR, fs_is_primary = False, fs_auto_id = False,
                  fs_max_length = None, fs_dim = Some 768\<rparr>] s1 = (Inr (), s2)
          \<and> srv_create_index m name ''embedding''
               \<lparr>ip_metric_type = ''L2'', ip_index_type = ''IVF_FLAT'', ip_params = [(''nlist'', 1024)]\<rparr> s2
               = (Inr (), s3)
          \<and> srv_load m name s3 = (Inr (), s4)
          \<longrightarrow> load_collection m c name \<lparr>server = s0, issued = cs\<rparr> =
                (Inr (), c\<lparr>sess := Some name\<rparr>,
                 \<lparr>server = s4,
                  issued = cs @
                    [HasCollection name,
                     NewCollection name
                       [\<lparr>fs_name = ''id'', fs_dtype = INT64, fs_is_primary = True, fs_auto_id = True,
                          fs_max_length = None, fs_dim = None\<rparr>,
                        \<lparr>fs_name = ''user_id'', fs_dtype = VARCHAR, fs_is_primary = False, fs_auto_id = False,
                          fs_max_length = Some 64, fs_dim = None\<rparr>,
                        \<lparr>fs_name = ''kb_id'', fs_dtype = VARCHAR, fs_is_primary = False, fs_auto_id = False,
                          fs_max_length = Some 64, fs_dim = None\<rparr>,
                        \<lparr>fs_name = ''file_id'', fs_dtype = VARCHAR, fs_is_primary = False, fs_auto_id = False,
                          fs_max_length = Some 64, fs_dim = None\<rparr>,
                        \<lparr>fs_name = ''headers'', fs_dtype = VARCHAR, fs_is_primary = False, fs_auto_id = False,
                          fs_max_length = Some 256, fs_dim = None\<rparr>,
                        \<lparr>fs_name = ''doc_id'', fs_dtype = VARCHAR, fs_is_primary = False, fs_auto_id = False,
                          fs_max_length = Some 64, fs_dim = None\<rparr>,
                        \<lparr>fs_name = ''content'', fs_dtype = VARCHAR, fs_is_primary = False, fs_auto_id = False,
                          fs_max_length = Some 4000, fs_dim = None\<rparr>,
                        \<lparr>fs_name = ''embedding'', fs_dtype = FLOAT_VECTOR, fs_is_primary = False,
                          fs_auto_id = False, fs_max_length = None, fs_dim = Some 768\<rparr>],
                     CreateIndex name ''embedding''
                       \<lparr>ip_metric_type = ''L2'', ip_index_type = ''IVF_FLAT'', ip_params = [(''nlist'', 1024)]\<rparr>,
                     Load name]\<rparr>))
       \<and> (srv_has_collection m name s0 = (Inr True, s1)
          \<and> srv_get_collection m name s1 = (Inr (), s2)
          \<and> srv_load m name s2 = (Inr (), s3)
          \<longrightarrow> load_collection m c name \<lparr>server = s0, issued = cs\<rparr> =
                (Inr (), c\<lparr>sess := Some name\<rparr>,
                 \<lparr>server = s3, issued = cs @ [HasCollection name, GetCollection name, Load name]\<rparr>))
       \<and> (\<forall>c' w'. load_collection m c name \<lparr>server = s0, issued = cs\<rparr> = (Inr (), c', w')
            \<longrightarrow> sess c' = Some name \<and> issued w' \<noteq> [] \<and> last (issued w') = Load name)"
proof -
  have cp: "create_params c =
      \<lparr>ip_metric_type = ''L2'', ip_index_type = ''IVF_FLAT'', ip_params = [(''nlist'', 1024)]\<rparr>"
    using assms by (simp add: MilvusClient_init_def issue_def split: prod.splits)
  have f: "fields =
               [\<lparr>fs_name = ''id'', fs_dtype = INT64, fs_is_primary = True, fs_auto_id = True,
                  fs_max_length = None, fs_dim = None\<rparr>,
                \<lparr>fs_name = ''user_id'', fs_dtype = VARCHAR, fs_is_primary = False, fs_auto_id = False,
                  fs_max_length = Some 64, fs_dim = None\<rparr>,
                \<lparr>fs_name = ''kb_id'', fs_dtype = VARCHAR, fs_is_primary = False, fs_auto_id = False,
                  fs_max_length = Some 64, fs_dim = None\<rparr>,
                \<lparr>fs_name = ''file_id'', fs_dtype = VARCHAR, fs_is_primary = False, fs_auto_id = False,
                  fs_max_length = Some 64, fs_dim = None\<rparr>,
                \<lparr>fs_name = ''headers'', fs_dtype = VARCHAR, fs_is_primary = False, fs_auto_id = False,
                  fs_max_length = Some 256, fs_dim = None\<rparr>,
                \<lparr>fs_name = ''doc_id'', fs_dtype = VARCHAR, fs_is_primary = False, fs_auto_id = False,
                  fs_max_length = Some 64, fs_dim = None\<rparr>,
                \<lparr>fs_name = ''content'', fs_dtype = VARCHAR, fs_is_primary = False, fs_auto_id = False,
                  fs_max_length = Some 4000, fs_dim = None\<rparr>,
                \<lparr>fs_name = ''embedding'', fs_dtype = FLOAT_VECTOR, fs_is_primary = False, fs_auto_id = False,
                  fs_max_length = None, fs_dim = Some 768\<rparr>]"
    by (simp add: fields_def FieldSchema_def)
  have a: "?thesis \<longleftrightarrow> True"
    unfolding f [symmetric]
    by (auto simp: load_collection_def get_time_def issue_def cp split: prod.splits sum.splits if_splits)
  then show ?thesis by simp
qed

theorem load_collection_creates_or_attaches_witness:
  "load_collection example_milvus example_client ''tenant_42'' \<lparr>server = [], issued = []\<rparr> =
     (Inr (), example_client\<lparr>sess := Some ''tenant_42''\<rparr>,
      \<lparr>server = [(''tenant_42'',
                   MemCollection fields
                     [(''embedding'', \<lparr>ip_metric_type = ''L2'', ip_index_type = ''IVF_FLAT'',
                                        ip_params = [(''nlist'', 1024)]\<rparr>)] True [])],
       issued = [HasCollection ''tenant_42'', NewCollection ''tenant_42'' fields,
                 CreateIndex ''tenant_42'' ''embedding''
                   \<lparr>ip_metric_type = ''L2'', ip_index_type = ''IVF_FLAT'', ip_params = [(''nlist'', 1024)]\<rparr>,
                 Load ''tenant_42'']\<rparr>)"
proof -
  have c: "create_params example_client
             = create_params (fst (MilvusClient_init example_milvus ''localhost'' 19530 30 example_world))"
    by (simp add: example_client_def)
  have f: "fields =
               [\<lparr>fs_name = ''id'', fs_dtype = INT64, fs_is_primary = True, fs_auto_id = True,
                  fs_max_length = None, fs_dim = None\<rparr>,
                \<lparr>fs_name = ''user_id'', fs_dtype = VARCHAR, fs_is_primary = False, fs_auto_id = False,
                  fs_max_length = Some 64, fs_dim = None\<rparr>,
                \<lparr>fs_name = ''kb_id'', fs_dtype = VARCHAR, fs_is_primary = False, fs_auto_id = False,
                  fs_max_length = Some 64, fs_dim = None\<rparr>,
                \<lparr>fs_name = ''file_id'', fs_dtype = VARCHAR, fs_is_primary = False, fs_auto_id = False,
                  fs_max_length = Some 64, fs_dim = None\<rparr>,
                \<lparr>fs_name = ''headers'', fs_dtype = VARCHAR, fs_is_primary = False, fs_auto_id = False,
                  fs_max_length = Some 256, fs_dim = None\<rparr>,
                \<lparr>fs_name = ''doc_id'', fs_dtype = VARCHAR, fs_is_primary = False, fs_auto_id = False,
                  fs_max_length = Some 64, fs_dim = None\<rparr>,
                \<lparr>fs_name = ''content'', fs_dtype = VARCHAR, fs_is_primary = False, fs_auto_id = False,
                  fs_max_length = Some 4000, fs_dim = None\<rparr>,
                \<lparr>fs_name = ''embedding'', fs_dtype = FLOAT_VECTOR, fs_is_primary = False, fs_auto_id = False,
                  fs_max_length = None, fs_dim = Some 768\<rparr>]"
    by (simp add: fields_def FieldSchema_def)
  from load_collection_creates_or_attaches [OF c, of example_milvus "''tenant_42''" "[]" "[]"
         "[(''tenant_42'', MemCollection fields [] False [])]"
         "[(''tenant_42'', MemCollection fields
              [(''embedding'', \<lparr>ip_metric_type = ''L2'', ip_index_type = ''IVF_FLAT'',
                                 ip_params = [(''nlist'', 1024)]\<rparr>)] False [])]"
         "[(''tenant_42'', MemCollection fields
              [(''embedding'', \<lparr>ip_metric_type = ''L2'', ip_index_type = ''IVF_FLAT'',
                                 ip_params = [(''nlist'', 1024)]\<rparr>)] True [])]"
         "[]"]
  show ?thesis
    unfolding f [symmetric]
    by (simp add: example_milvus_def mem_milvus_def mem_upd_def)
qed

subsection \<open>The request and the records of search_docs\<close>

text \<open>
  \<^bold>\<open>C8.\<close> When the filter expression is absent or empty, the one call a loaded client
  issues is a search whose \<^verbatim>\<open>expr\<close> is the empty string, and the records returned are
  built one per hit of the store's answer, in order: the client filters nothing itself.
\<close>

theorem search_docs_empty_filter:
  assumes "filter_expr = None \<or> filter_expr = Some []" and "sess c = Some h"
  shows "\<exists>kw. rq_expr kw = []
           \<and> issued (snd (search_docs m rt c query_embedding filter_expr doc_limit w)) = issued w @ [Search h kw]
           \<and> (\<forall>results s' docs.
                 srv_search m h kw (server w) = (Inr results, s')
                 \<and> fst (search_docs m rt c query_embedding filter_expr doc_limit w) = Inr docs
                 \<longrightarrow> list_all2 (\<lambda>x d. hit_doc rt x = Inr d) (concat results) docs)"
proof -
  let ?kw = "search_kwargs c query_embedding filter_expr (case doc_limit of None \<Rightarrow> 10 | Some x \<Rightarrow> x)"
  have e: "rq_expr ?kw = []"
    using assms(1) by (auto simp: search_kwargs_def)
  have i: "issued (snd (search_docs m rt c query_embedding filter_expr doc_limit w)) = issued w @ [Search h ?kw]"
    by (simp add: search_docs_loaded [OF assms(2)] split: prod.splits sum.splits)
  have r: "\<forall>results s' docs.
             srv_search m h ?kw (server w) = (Inr results, s')
             \<and> fst (search_docs m rt c query_embedding filter_expr doc_limit w) = Inr docs
             \<longrightarrow> list_all2 (\<lambda>x d. hit_doc rt x = Inr d) (concat results) docs"
    by (auto simp: search_docs_loaded [OF assms(2)] retrieve_docs_Inr [symmetric] split: sum.splits)
  from e i r show ?thesis by blast
qed

theorem search_docs_empty_filter_witness:
  "\<exists>kw. rq_expr kw = []
     \<and> issued (snd (search_docs example_milvus example_rt example_loaded (Some example_embedding) None None
                      example_stored_world))
         = issued example_stored_world @ [Search ''tenant_42'' kw]"
proof -
  have f: "(None :: string option) = None \<or> (None :: string option) = Some []" by simp
  from search_docs_empty_filter [OF f example_loaded_sess, of example_milvus example_rt "Some example_embedding" None
         example_stored_world]
  show ?thesis by blast
qed

text \<open>
  \<^bold>\<open>C9.\<close> When the query embedding is absent (\<^verbatim>\<open>None\<close>, or the empty list, which is falsy
  as well), the search a loaded client issues carries \<^verbatim>\<open>data = None\<close>; the request is the
  one built from the filter expression and the limit with no embedding at all, and so is
  the outcome of the call.
\<close>

theorem search_docs_no_query_vector:
  assumes "query_embedding = None \<or> query_embedding = Some []" and "sess c = Some h"
  shows "\<exists>kw. rq_data kw = None
           \<and> kw = search_kwargs c None filter_expr (case doc_limit of None \<Rightarrow> 10 | Some x \<Rightarrow> x)
           \<and> issued (snd (search_docs m rt c query_embedding filter_expr doc_limit w)) = issued w @ [Search h kw]
           \<and> search_docs m rt c query_embedding filter_expr doc_limit w
               = search_docs m rt c None filter_expr doc_limit w"
proof -
  let ?l = "case doc_limit of None \<Rightarrow> 10 | Some x \<Rightarrow> x"
  have k: "search_kwargs c query_embedding filter_expr ?l = search_kwargs c None filter_expr ?l"
    using assms(1) by (auto simp: search_kwargs_def)
  have d: "rq_data (search_kwargs c None filter_expr ?l) = None"
    by (simp add: search_kwargs_def)
  have i: "issued (snd (search_docs m rt c query_embedding filter_expr doc_limit w))
             = issued w @ [Search h (search_kwargs c None filter_expr ?l)]"
    by (simp add: search_docs_loaded [OF assms(2)] k split: prod.splits sum.splits)
  have q: "search_docs m rt c query_embedding filter_expr doc_limit w
             = search_docs m rt c None filter_expr doc_limit w"
    unfolding search_docs_loaded [OF assms(2)] k ..
  from d i q show ?thesis by blast
qed

theorem search_docs_no_query_vector_witness:
  "\<exists>kw. rq_data kw = None
     \<and> issued (snd (search_docs example_milvus example_rt example_loaded (Some []) (Some example_filter)
                      None example_stored_world))
         = issued example_stored_world @ [Search ''tenant_42'' kw]
     \<and> search_docs example_milvus example_rt example_loaded (Some []) (Some example_filter) None
         example_stored_world
       = search_docs example_milvus example_rt example_loaded None (Some example_filter) None
           example_stored_world"
proof -
  have q: "(Some [] :: int list option) = None \<or> (Some [] :: int list option) = Some []" by simp
  from search_docs_no_query_vector [OF q example_loaded_sess, of "Some example_filter" None example_milvus
         example_rt example_stored_world]
  show ?thesis by blast
qed







end
